theory Spec2Isabelle
  imports Complex_Main
begin

section \<open>Fleet management: reservation store, robots, fleet and traffic managers\<close>

text \<open>
  A shallow embedding of \<^verbatim>\<open>models/nav_graph.py\<close>, \<^verbatim>\<open>models/robot.py\<close>,
  \<^verbatim>\<open>controllers/fleet_manager.py\<close> and \<^verbatim>\<open>controllers/traffic_manager.py\<close>.

  Conventions of the embedding.
  \<^item> Python objects that are mutated in place (the navigation graph shared by every robot
    and both managers, a robot, the fleet manager) are passed in and returned updated.
  \<^item> Python integers are \<open>int\<close>; \<open>current_path_index\<close>, which starts at 0 and is only
    ever incremented, is a \<open>nat\<close>.
  \<^item> Python and numpy numbers (vertex coordinates, scale and offsets, positions, the
    movement step, \<open>delta_time\<close>) are values of a type \<open>'f\<close> that is left open, and every
    operation the code applies to them (arithmetic, comparison, \<open>int\<close>, the norm) is a
    field of the record \<open>arith\<close> that the computing functions take as their first
    argument. Nothing is assumed of these operations, so what is proved holds for binary64
    with its rounding, infinities and NaN as for any other arithmetic.
  \<^item> A raised exception is the \<open>Inl\<close> branch of a sum; the partially mutated objects
    that a raise leaves behind are not tracked.
  \<^item> \<open>log_event\<close> only appends a time-stamped line to a file and swallows every exception
    of doing so; it touches neither the graph nor a robot and is left out.
    \<open>last_action_time\<close> (a wall-clock reading that nothing reads back) is left out too.
\<close>

subsection \<open>Python values\<close>

datatype py_error = IndexError | KeyError | NodeNotFound | NetworkXNoPath

text \<open>
  \<open>xs[i]\<close> on a Python list: a negative \<open>i\<close> counts from the end, anything outside
  \<open>-len(xs) \<le> i < len(xs)\<close> raises \<open>IndexError\<close>. \<open>list_index\<close> is the position read,
  \<open>None\<close> standing for the raise.
\<close>

definition list_index :: "'a list \<Rightarrow> int \<Rightarrow> nat option" where
  "list_index xs i =
     (if 0 \<le> i \<and> i < int (length xs) then Some (nat i)
      else if i < 0 \<and> 0 \<le> int (length xs) + i then Some (nat (int (length xs) + i))
      else None)"

text \<open>
  The operations on numbers, in the order the code uses them: Python's \<open>-\<close>, \<open>*\<close>, \<open>+\<close> and
  \<open>int\<close> in \<open>get_scaled_position\<close> (coordinates are finite numbers, on which \<open>int\<close> does not
  raise); the literal \<open>2.0\<close> of the constructor; numpy's elementwise \<open>-\<close>, \<open>/\<close>, \<open>*\<close>, \<open>+\<close>,
  \<open>np.linalg.norm\<close> of a two-component array, and \<open><\<close> in \<open>update\<close>. \<open>np.array\<close> of a
  position and \<open>tuple\<close> of an array keep the two components as they are.
\<close>

record 'f arith =
  py_sub :: "'f \<Rightarrow> 'f \<Rightarrow> 'f"
  py_mul :: "'f \<Rightarrow> 'f \<Rightarrow> 'f"
  py_add :: "'f \<Rightarrow> 'f \<Rightarrow> 'f"
  py_int :: "'f \<Rightarrow> 'f"
  py_two :: 'f
  np_sub :: "'f \<Rightarrow> 'f \<Rightarrow> 'f"
  np_div :: "'f \<Rightarrow> 'f \<Rightarrow> 'f"
  np_mul :: "'f \<Rightarrow> 'f \<Rightarrow> 'f"
  np_add :: "'f \<Rightarrow> 'f \<Rightarrow> 'f"
  np_norm :: "'f \<times> 'f \<Rightarrow> 'f"
  np_less :: "'f \<Rightarrow> 'f \<Rightarrow> bool"

text \<open>
  A \<open>dict\<close> whose iteration order matters is an association list in insertion order.
  \<open>d[k]\<close> is \<open>dict_get\<close> (\<open>None\<close> standing for \<open>KeyError\<close>); \<open>d[k] = v\<close> is \<open>dict_set\<close>:
  an existing key keeps its place, a new key goes to the end.
\<close>

fun dict_get :: "('k \<times> 'v) list \<Rightarrow> 'k \<Rightarrow> 'v option" where
  "dict_get [] k = None"
| "dict_get ((k', v) # d) k = (if k' = k then Some v else dict_get d k)"

fun dict_set :: "('k \<times> 'v) list \<Rightarrow> 'k \<Rightarrow> 'v \<Rightarrow> ('k \<times> 'v) list" where
  "dict_set [] k v = [(k, v)]"
| "dict_set ((k', v') # d) k v = (if k' = k then (k, v) # d else (k', v') # dict_set d k v)"

subsection \<open>The navigation graph (\<^verbatim>\<open>nav_graph.py\<close>)\<close>

text \<open>
  The dictionaries built by \<open>load_from_json\<close>. The key \<open>'id'\<close> of a vertex is its index
  in \<open>vertices\<close>; \<open>'occupying_robot'\<close> is \<open>None\<close> or a robot id.
\<close>

record 'f vertex =
  vertex_id :: int
  vertex_x :: 'f
  vertex_y :: 'f
  vertex_name :: string
  is_charger :: bool
  vertex_occupying_robot :: "int option"

text \<open>
  \<open>speed_limit\<close> is stored and never read; it is kept as the real number the JSON value
  denotes.
\<close>

record lane =
  from_vertex :: int
  to_vertex :: int
  speed_limit :: real
  lane_occupying_robot :: "int option"
  is_blocked :: bool

text \<open>
  The attributes of \<open>NavGraph\<close>. The bounds \<open>min_x\<close> .. \<open>max_y\<close> are set by
  \<open>_calculate_bounds\<close> whenever \<open>vertices\<close> is not empty, and they are read only after an
  index into \<open>vertices\<close> has succeeded. The attribute \<open>graph\<close> (a networkx \<open>DiGraph\<close>) is
  filled once by \<open>load_from_json\<close> with node \<open>i\<close> for the \<open>i\<close>-th vertex and an edge (and
  its two end nodes) for every lane, and never changes afterwards: it is read off
  \<open>vertices\<close> and \<open>lanes\<close> by \<open>graph_nodes\<close> and \<open>successors\<close> below.
\<close>

record 'f nav_graph =
  vertices :: "'f vertex list"
  lanes :: "lane list"
  scale_factor :: 'f
  offset_x :: 'f
  offset_y :: 'f
  min_x :: 'f
  max_x :: 'f
  min_y :: 'f
  max_y :: 'f

definition get_scaled_position :: "'f arith \<Rightarrow> 'f nav_graph \<Rightarrow> int \<Rightarrow> py_error + ('f \<times> 'f)" where
  "get_scaled_position ops g v =
     (case list_index (vertices g) v of
        None \<Rightarrow> Inl IndexError
      | Some i \<Rightarrow>
          (let vt = vertices g ! i;
               px = py_add ops (py_mul ops (py_sub ops (vertex_x vt) (min_x g)) (scale_factor g))
                      (offset_x g);
               py = py_add ops (py_mul ops (py_sub ops (vertex_y vt) (min_y g)) (scale_factor g))
                      (offset_y g)
           in Inr (py_int ops px, py_int ops py)))"

definition reserve_vertex :: "'f nav_graph \<Rightarrow> int \<Rightarrow> int \<Rightarrow> py_error + (bool \<times> 'f nav_graph)" where
  "reserve_vertex g v rid =
     (case list_index (vertices g) v of
        None \<Rightarrow> Inl IndexError
      | Some i \<Rightarrow>
          if vertex_occupying_robot (vertices g ! i) = None
          then Inr (True,
                 g\<lparr>vertices := (vertices g)[i := (vertices g ! i)\<lparr>vertex_occupying_robot := Some rid\<rparr>]\<rparr>)
          else Inr (False, g))"

definition release_vertex :: "'f nav_graph \<Rightarrow> int \<Rightarrow> int \<Rightarrow> py_error + 'f nav_graph" where
  "release_vertex g v rid =
     (case list_index (vertices g) v of
        None \<Rightarrow> Inl IndexError
      | Some i \<Rightarrow>
          if vertex_occupying_robot (vertices g ! i) = Some rid
          then Inr (g\<lparr>vertices := (vertices g)[i := (vertices g ! i)\<lparr>vertex_occupying_robot := None\<rparr>]\<rparr>)
          else Inr g)"

text \<open>
  The loop of \<open>reserve_lane\<close> returns at the first lane with the given end points,
  whatever its state; it returns \<open>False\<close> when the loop runs out.
\<close>

fun reserve_lane_loop :: "lane list \<Rightarrow> int \<Rightarrow> int \<Rightarrow> int \<Rightarrow> bool \<times> lane list" where
  "reserve_lane_loop [] f t rid = (False, [])"
| "reserve_lane_loop (l # ls) f t rid =
     (if from_vertex l = f \<and> to_vertex l = t
      then (if lane_occupying_robot l = None \<and> \<not> is_blocked l
            then (True, l\<lparr>lane_occupying_robot := Some rid\<rparr> # ls)
            else (False, l # ls))
      else (case reserve_lane_loop ls f t rid of (b, ls') \<Rightarrow> (b, l # ls')))"

definition reserve_lane :: "'f nav_graph \<Rightarrow> int \<Rightarrow> int \<Rightarrow> int \<Rightarrow> bool \<times> 'f nav_graph" where
  "reserve_lane g f t rid =
     (case reserve_lane_loop (lanes g) f t rid of (b, ls') \<Rightarrow> (b, g\<lparr>lanes := ls'\<rparr>))"

text \<open>The loop of \<open>release_lane\<close> has no early exit: it visits every lane.\<close>

definition release_lane :: "'f nav_graph \<Rightarrow> int \<Rightarrow> int \<Rightarrow> int \<Rightarrow> 'f nav_graph" where
  "release_lane g f t rid =
     g\<lparr>lanes := map (\<lambda>l. if from_vertex l = f \<and> to_vertex l = t
                             then (if lane_occupying_robot l = Some rid
                                   then l\<lparr>lane_occupying_robot := None\<rparr> else l)
                             else l) (lanes g)\<rparr>"

subsection \<open>Shortest paths\<close>

text \<open>
  The nodes of the \<open>DiGraph\<close>: one per vertex index, and the end points of every lane
  (\<open>add_edge\<close> adds a missing end node). Its edges: the lanes, as pairs of end points.
\<close>

definition graph_nodes :: "'f nav_graph \<Rightarrow> int list" where
  "graph_nodes g =
     map int [0..<length (vertices g)] @ concat (map (\<lambda>l. [from_vertex l, to_vertex l]) (lanes g))"

definition successors :: "'f nav_graph \<Rightarrow> int \<Rightarrow> int list" where
  "successors g v = map to_vertex (filter (\<lambda>l. from_vertex l = v) (lanes g))"

text \<open>
  Modelled from the spec: \<open>networkx.shortest_path\<close>, the library routine behind
  \<open>get_shortest_path\<close>, is not part of the sources. The spec has it return an unweighted
  shortest path (minimum hop count) that ignores speed limits and the blocked flag, and
  "no path" for an unreachable destination. It is modelled by \<open>expand\<close>, \<open>bfs\<close> and
  \<open>nx_shortest_path\<close>, a layered breadth-first search over the lanes. \<open>expand\<close> is one
  layer: every frontier entry \<open>(v, p)\<close> (a node and the reversed path that led to it) is
  extended by the successors of \<open>v\<close> not seen so far.
\<close>

fun expand :: "'f nav_graph \<Rightarrow> (int \<times> int list) list \<Rightarrow> int list \<Rightarrow> (int \<times> int list) list" where
  "expand g [] seen = []"
| "expand g ((v, p) # fs) seen =
     (let new = remdups (filter (\<lambda>w. w \<notin> set seen) (successors g v))
      in map (\<lambda>w. (w, v # p)) new @ expand g fs (seen @ new))"

text \<open>
  Modelled from the spec: the search itself. It stops with the path of the first
  frontier entry on the target, or with nothing when a layer adds no node; it ends
  because every layer but the last sees a node of the graph not seen before.
\<close>

function bfs :: "'f nav_graph \<Rightarrow> int \<Rightarrow> (int \<times> int list) list \<Rightarrow> int list \<Rightarrow> int list option" where
  "bfs g t frontier seen =
     (case find (\<lambda>(v, p). v = t) frontier of
        Some (v, p) \<Rightarrow> Some (rev (v # p))
      | None \<Rightarrow>
          (let next = expand g frontier seen
           in if next = [] then None else bfs g t next (seen @ map fst next)))"
  by pat_completeness auto
termination
proof (relation "measure (\<lambda>(g, t, frontier, seen). card (set (graph_nodes g) - set seen))")
  show "wf (measure (\<lambda>(g, t, frontier, seen). card (set (graph_nodes g) - set seen)))"
    by simp
next
  fix g :: "'f nav_graph" and t :: int and frontier :: "(int \<times> int list) list"
    and seen :: "int list" and x :: "(int \<times> int list) list"
  assume x: "x = expand g frontier seen" and ne: "x \<noteq> []"
  have fresh: "w \<notin> set sn \<and> w \<in> set (graph_nodes g)"
    if "(w, p) \<in> set (expand g fs sn)" for w p fs sn
    using that
  proof (induction fs arbitrary: sn)
    case Nil
    then show ?case by simp
  next
    case (Cons f fs)
    obtain v q where f: "f = (v, q)" by (cases f)
    let ?new = "remdups (filter (\<lambda>w. w \<notin> set sn) (successors g v))"
    from Cons.prems f
    have "(w, p) \<in> set (map (\<lambda>w. (w, v # q)) ?new) \<or> (w, p) \<in> set (expand g fs (sn @ ?new))"
      by (simp add: Let_def)
    then show ?case
    proof
      assume "(w, p) \<in> set (map (\<lambda>w. (w, v # q)) ?new)"
      then show ?thesis by (auto simp: successors_def graph_nodes_def)
    next
      assume "(w, p) \<in> set (expand g fs (sn @ ?new))"
      from Cons.IH [OF this] show ?thesis by simp
    qed
  qed
  from ne obtain w p where wp: "(w, p) \<in> set x"
    by (cases x) auto
  with x have w: "w \<notin> set seen" "w \<in> set (graph_nodes g)"
    using fresh by blast+
  from wp have "w \<in> set (map fst x)" by force
  with w have "set (graph_nodes g) - set (seen @ map fst x) \<subset> set (graph_nodes g) - set seen"
    by auto
  then have "card (set (graph_nodes g) - set (seen @ map fst x))
               < card (set (graph_nodes g) - set seen)"
    by (simp add: psubset_card_mono)
  then show "((g, t, x, seen @ map fst x), (g, t, frontier, seen))
               \<in> measure (\<lambda>(g, t, frontier, seen). card (set (graph_nodes g) - set seen))"
    by simp
qed

text \<open>
  Modelled from the spec: the entry point. As the library does, it raises \<open>NodeNotFound\<close>
  when an end point is not a node of the graph, raises \<open>NetworkXNoPath\<close> when the search
  finds nothing, and returns the one-node path when both end points are the same node.
  Which of several shortest paths the library picks is not modelled.
\<close>

definition nx_shortest_path :: "'f nav_graph \<Rightarrow> int \<Rightarrow> int \<Rightarrow> py_error + int list" where
  "nx_shortest_path g s t =
     (if s \<notin> set (graph_nodes g) \<or> t \<notin> set (graph_nodes g) then Inl NodeNotFound
      else (case bfs g t [(s, [])] [s] of
              None \<Rightarrow> Inl NetworkXNoPath
            | Some p \<Rightarrow> Inr p))"

text \<open>\<open>get_shortest_path\<close> turns \<open>NetworkXNoPath\<close>, and only that, into \<open>None\<close>.\<close>

definition get_shortest_path :: "'f nav_graph \<Rightarrow> int \<Rightarrow> int \<Rightarrow> py_error + int list option" where
  "get_shortest_path g s t =
     (case nx_shortest_path g s t of
        Inl NetworkXNoPath \<Rightarrow> Inr None
      | Inl e \<Rightarrow> Inl e
      | Inr p \<Rightarrow> Inr (Some p))"

subsection \<open>The robot (\<^verbatim>\<open>robot.py\<close>)\<close>

datatype robot_state = Idle | Moving | Waiting | Charging | Completed

text \<open>
  The attribute \<open>id\<close> is \<open>robot_id\<close> here; \<open>nav_graph\<close>, a reference to the one shared
  graph, is the graph argument of every operation.
\<close>

record 'f robot =
  robot_id :: int
  current_vertex :: int
  color :: "nat \<times> nat \<times> nat"
  state :: robot_state
  path :: "int list"
  current_path_index :: nat
  target_vertex :: "int option"
  position :: "'f \<times> 'f"
  target_position :: "'f \<times> 'f"
  move_speed :: 'f

text \<open>\<open>Robot.__init__\<close>: the result of reserving the start vertex is not looked at.\<close>

definition robot_init :: "'f arith \<Rightarrow> int \<Rightarrow> int \<Rightarrow> 'f nav_graph \<Rightarrow> nat \<times> nat \<times> nat \<Rightarrow> py_error + ('f robot \<times> 'f nav_graph)" where
  "robot_init ops rid start_vertex g col =
     (case get_scaled_position ops g start_vertex of
        Inl e \<Rightarrow> Inl e
      | Inr pos \<Rightarrow>
          (case reserve_vertex g start_vertex rid of
             Inl e \<Rightarrow> Inl e
           | Inr (ok, g') \<Rightarrow>
               Inr (\<lparr>robot_id = rid, current_vertex = start_vertex, color = col, state = Idle,
                     path = [], current_path_index = 0, target_vertex = None,
                     position = pos, target_position = pos, move_speed = py_two ops\<rparr>, g')))"

definition assign_task :: "'f robot \<Rightarrow> 'f nav_graph \<Rightarrow> int \<Rightarrow> py_error + (bool \<times> 'f robot)" where
  "assign_task r g destination_vertex =
     (if state r \<noteq> Idle \<and> state r \<noteq> Completed then Inr (False, r)
      else (case get_shortest_path g (current_vertex r) destination_vertex of
              Inl e \<Rightarrow> Inl e
            | Inr None \<Rightarrow> Inr (False, r)
            | Inr (Some p) \<Rightarrow>
                Inr (True, r\<lparr>path := p, current_path_index := 0,
                              target_vertex := Some destination_vertex, state := Idle\<rparr>)))"

text \<open>
  The dictionary returned by \<open>update\<close>. The event strings \<open>'started_charging'\<close>,
  \<open>f'moving_to_{v}'\<close>, \<open>f'waiting_for_lane_to_{v}'\<close>, \<open>'reached_destination'\<close> and
  \<open>f'arrived_at_{v}'\<close> are the constructors of \<open>event\<close>.
\<close>

datatype event =
  Started_charging | Moving_to int | Waiting_for_lane_to int | Reached_destination | Arrived_at int

record status_update =
  su_robot_id :: int
  su_state :: robot_state
  su_position :: int
  su_event :: "event option"

text \<open>
  The guard of line 94, \<open>self.path and self.current_path_index < len(self.path) - 1\<close>,
  in Python's integers. Under it \<open>path[current_path_index + 1]\<close> is in range.
\<close>

definition has_next_hop :: "'f robot \<Rightarrow> bool" where
  "has_next_hop r \<longleftrightarrow> path r \<noteq> [] \<and> int (current_path_index r) < int (length (path r)) - 1"

text \<open>
  What follows a successful lane reservation, the same statements in the Idle/Charging
  branch and in the Waiting branch: release the current vertex, start moving, aim at the
  next vertex.
\<close>

definition start_moving ::
  "'f arith \<Rightarrow> status_update \<Rightarrow> 'f robot \<Rightarrow> 'f nav_graph \<Rightarrow> int \<Rightarrow> py_error + (status_update \<times> 'f robot \<times> 'f nav_graph)" where
  "start_moving ops status r g next_vertex =
     (case release_vertex g (current_vertex r) (robot_id r) of
        Inl e \<Rightarrow> Inl e
      | Inr g' \<Rightarrow>
          (case get_scaled_position ops g' next_vertex of
             Inl e \<Rightarrow> Inl e
           | Inr tp \<Rightarrow>
               Inr (status\<lparr>su_state := Moving, su_event := Some (Moving_to next_vertex)\<rparr>,
                    r\<lparr>state := Moving, target_position := tp\<rparr>, g')))"

text \<open>Lines 96-117: the branch of a robot that is Idle or Charging.\<close>

definition update_idle_charging ::
  "'f arith \<Rightarrow> status_update \<Rightarrow> 'f robot \<Rightarrow> 'f nav_graph \<Rightarrow> py_error + (status_update \<times> 'f robot \<times> 'f nav_graph)" where
  "update_idle_charging ops status r g =
     (let next_vertex = path r ! (current_path_index r + 1)
      in (case reserve_lane g (current_vertex r) next_vertex (robot_id r) of
            (can_reserve_lane, g') \<Rightarrow>
              if can_reserve_lane then start_moving ops status r g' next_vertex
              else Inr (status\<lparr>su_state := Waiting, su_event := Some (Waiting_for_lane_to next_vertex)\<rparr>,
                        r\<lparr>state := Waiting\<rparr>, g')))"

text \<open>Lines 120-158: the branch of a Moving robot.\<close>

definition update_moving ::
  "'f arith \<Rightarrow> status_update \<Rightarrow> 'f robot \<Rightarrow> 'f nav_graph \<Rightarrow> py_error + (status_update \<times> 'f robot \<times> 'f nav_graph)" where
  "update_moving ops status r g =
     (let direction = (np_sub ops (fst (target_position r)) (fst (position r)),
                       np_sub ops (snd (target_position r)) (snd (position r)));
          distance = np_norm ops direction
      in if np_less ops distance (move_speed r)
         then (let idx = current_path_index r + 1;
                   next_vertex = path r ! idx;
                   prev_vertex = path r ! (idx - 1);
                   g1 = release_lane g prev_vertex next_vertex (robot_id r)
               in (case reserve_vertex g1 next_vertex (robot_id r) of
                     Inl e \<Rightarrow> Inl e
                   | Inr (ok, g2) \<Rightarrow>
                       (let r1 = r\<lparr>position := target_position r, current_path_index := idx,
                                    current_vertex := next_vertex\<rparr>
                        in if int idx = int (length (path r)) - 1
                           then Inr (status\<lparr>su_state := Completed, su_event := Some Reached_destination\<rparr>,
                                     r1\<lparr>state := Completed\<rparr>, g2)
                           else Inr (status\<lparr>su_state := Idle, su_event := Some (Arrived_at next_vertex)\<rparr>,
                                     r1\<lparr>state := Idle\<rparr>, g2))))
         else Inr (status,
                   r\<lparr>position :=
                       (np_add ops (fst (position r))
                          (np_mul ops (np_div ops (fst direction) distance) (move_speed r)),
                        np_add ops (snd (position r))
                          (np_mul ops (np_div ops (snd direction) distance) (move_speed r)))\<rparr>,
                   g))"

text \<open>Lines 161-177: the branch of a Waiting robot; a failed retry changes nothing.\<close>

definition update_waiting ::
  "'f arith \<Rightarrow> status_update \<Rightarrow> 'f robot \<Rightarrow> 'f nav_graph \<Rightarrow> py_error + (status_update \<times> 'f robot \<times> 'f nav_graph)" where
  "update_waiting ops status r g =
     (let next_vertex = path r ! (current_path_index r + 1)
      in (case reserve_lane g (current_vertex r) next_vertex (robot_id r) of
            (can_reserve_lane, g') \<Rightarrow>
              if can_reserve_lane then start_moving ops status r g' next_vertex
              else Inr (status, r, g')))"

text \<open>Lines 93-179: path following, after the charger check.\<close>

definition follow_path ::
  "'f arith \<Rightarrow> status_update \<Rightarrow> 'f robot \<Rightarrow> 'f nav_graph \<Rightarrow> py_error + (status_update \<times> 'f robot \<times> 'f nav_graph)" where
  "follow_path ops status r g =
     (if has_next_hop r
      then (if state r = Idle \<or> state r = Charging then update_idle_charging ops status r g
            else if state r = Moving then update_moving ops status r g
            else if state r = Waiting then update_waiting ops status r g
            else Inr (status, r, g))
      else Inr (status, r, g))"

text \<open>\<open>Robot.update\<close>. The argument \<open>delta_time\<close> is the source's; nothing reads it.\<close>

definition update :: "'f arith \<Rightarrow> 'f \<Rightarrow> 'f robot \<Rightarrow> 'f nav_graph \<Rightarrow> py_error + (status_update \<times> 'f robot \<times> 'f nav_graph)" where
  "update ops delta_time r g =
     (let status = \<lparr>su_robot_id = robot_id r, su_state = state r,
                    su_position = current_vertex r, su_event = None\<rparr>
      in if state r = Idle
         then (case list_index (vertices g) (current_vertex r) of
                 None \<Rightarrow> Inl IndexError
               | Some i \<Rightarrow>
                   if is_charger (vertices g ! i)
                   then Inr (status\<lparr>su_state := Charging, su_event := Some Started_charging\<rparr>,
                             r\<lparr>state := Charging\<rparr>, g)
                   else follow_path ops status r g)
         else follow_path ops status r g)"

subsection \<open>The fleet manager (\<^verbatim>\<open>fleet_manager.py\<close>)\<close>

record 'f fleet_manager =
  robots :: "(int \<times> 'f robot) list"
  next_robot_id :: int
  selected_robot :: "int option"



subsection \<open>The traffic manager (\<^verbatim>\<open>traffic_manager.py\<close>)\<close>

text \<open>The ids of the Waiting robots, in the iteration order of \<open>robots.items()\<close>.\<close>

definition waiting_robots :: "(int \<times> 'f robot) list \<Rightarrow> int list" where
  "waiting_robots rs = map fst (filter (\<lambda>(k, r). state r = Waiting) rs)"

text \<open>
  The loop of lines 89-102, which has no \<open>break\<close>: every lane from \<open>cv\<close> to \<open>nv\<close> that is
  occupied is cleared and counted.
\<close>

fun clear_lanes :: "lane list \<Rightarrow> int \<Rightarrow> int \<Rightarrow> nat \<Rightarrow> lane list \<times> nat" where
  "clear_lanes [] cv nv resolved = ([], resolved)"
| "clear_lanes (l # ls) cv nv resolved =
     (if from_vertex l = cv \<and> to_vertex l = nv \<and> lane_occupying_robot l \<noteq> None
      then (case clear_lanes ls cv nv (resolved + 1) of
              (ls', n) \<Rightarrow> (l\<lparr>lane_occupying_robot := None\<rparr> # ls', n))
      else (case clear_lanes ls cv nv resolved of (ls', n) \<Rightarrow> (l # ls', n)))"

definition resolve_deadlocks :: "'f fleet_manager \<Rightarrow> 'f nav_graph \<Rightarrow> py_error + (nat \<times> 'f nav_graph)" where
  "resolve_deadlocks fm g =
     (case waiting_robots (robots fm) of
        [] \<Rightarrow> Inr (0, g)
      | prioritized_robot_id # _ \<Rightarrow>
          (case dict_get (robots fm) prioritized_robot_id of
             None \<Rightarrow> Inl KeyError
           | Some r \<Rightarrow>
               if has_next_hop r
               then (let next_vertex = path r ! (current_path_index r + 1)
                     in (case clear_lanes (lanes g) (current_vertex r) next_vertex 0 of
                           (ls', resolved) \<Rightarrow> Inr (resolved, g\<lparr>lanes := ls'\<rparr>)))
               else Inr (0, g)))"

subsection \<open>Well-formedness of the store and of a robot\<close>

text \<open>
  \<open>reserve_lane\<close> only ever writes to the first lane with given end points, so a lane
  that is occupied has no earlier lane with the same end points. \<open>lanes_ok\<close> says so;
  it holds of a freshly loaded graph and every operation keeps it (lemmas below).
\<close>

definition same_ends :: "lane \<Rightarrow> lane \<Rightarrow> bool" where
  "same_ends l m \<longleftrightarrow> from_vertex l = from_vertex m \<and> to_vertex l = to_vertex m"

fun lanes_ok :: "lane list \<Rightarrow> bool" where
  "lanes_ok [] = True"
| "lanes_ok (l # ls) = (list_all (\<lambda>m. same_ends l m \<longrightarrow> lane_occupying_robot m = None) ls \<and> lanes_ok ls)"

text \<open>A vertex id is in the store when it is the index of a vertex.\<close>

definition in_store :: "'f nav_graph \<Rightarrow> int \<Rightarrow> bool" where
  "in_store g v \<longleftrightarrow> 0 \<le> v \<and> v < int (length (vertices g))"

text \<open>
  The lane directed from \<open>f\<close> to \<open>t\<close>: the first one in \<open>lanes\<close> with these end points,
  the only one \<open>reserve_lane\<close> looks at.
\<close>

definition lane_from_to :: "'f nav_graph \<Rightarrow> int \<Rightarrow> int \<Rightarrow> lane option" where
  "lane_from_to g f t = find (\<lambda>l. from_vertex l = f \<and> to_vertex l = t) (lanes g)"

text \<open>
  The first Waiting robot in the iteration order of the registry, and the lanes that lead
  from a robot's current vertex to its next path vertex.
\<close>

definition first_waiting :: "(int \<times> 'f robot) list \<Rightarrow> (int \<times> 'f robot) option" where
  "first_waiting rs = find (\<lambda>(k, r). state r = Waiting) rs"

definition next_lane :: "'f robot \<Rightarrow> lane \<Rightarrow> bool" where
  "next_lane r l \<longleftrightarrow>
     has_next_hop r \<and> from_vertex l = current_vertex r
       \<and> to_vertex l = path r ! (current_path_index r + 1)"

text \<open>
  What the constructor and the two methods of a robot maintain: a robot that is Moving or
  Waiting has a hop left.
\<close>

definition robot_ok :: "'f robot \<Rightarrow> bool" where
  "robot_ok r \<longleftrightarrow> (state r = Moving \<or> state r = Waiting \<longrightarrow> has_next_hop r)"

text \<open>A sequence of calls on one robot, the graph threaded through them.\<close>

datatype 'f robot_call = Update 'f | Assign_task int

fun apply_calls :: "'f arith \<Rightarrow> 'f robot_call list \<Rightarrow> 'f robot \<Rightarrow> 'f nav_graph \<Rightarrow> py_error + ('f robot \<times> 'f nav_graph)" where
  "apply_calls ops [] r g = Inr (r, g)"
| "apply_calls ops (Update dt # cs) r g =
     (case update ops dt r g of Inl e \<Rightarrow> Inl e | Inr (st, r', g') \<Rightarrow> apply_calls ops cs r' g')"
| "apply_calls ops (Assign_task d # cs) r g =
     (case assign_task r g d of Inl e \<Rightarrow> Inl e | Inr (ok, r') \<Rightarrow> apply_calls ops cs r' g)"

subsection \<open>A store and robots to evaluate on\<close>

text \<open>
  An arithmetic to evaluate with: the exact operations on the reals, \<open>int\<close> truncating
  toward zero and the norm the Euclidean length. On the numbers of the examples below,
  small whole numbers whose sums, products and quotients are whole again, binary64
  computes the same values.
\<close>

definition exact_arith :: "real arith" where
  "exact_arith =
     \<lparr>py_sub = (\<lambda>a b. a - b), py_mul = (\<lambda>a b. a * b), py_add = (\<lambda>a b. a + b),
      py_int = (\<lambda>a. of_int (if 0 \<le> a then \<lfloor>a\<rfloor> else \<lceil>a\<rceil>)), py_two = 2,
      np_sub = (\<lambda>a b. a - b), np_div = (\<lambda>a b. a / b), np_mul = (\<lambda>a b. a * b),
      np_add = (\<lambda>a b. a + b), np_norm = (\<lambda>d. sqrt ((fst d)\<^sup>2 + (snd d)\<^sup>2)),
      np_less = (\<lambda>a b. a < b)\<rparr>"

text \<open>
  Three vertices in a line, a lane in each direction between neighbours; vertex 2 is a
  charger. Vertex 1 and the lane from 1 to 2 are held by robot 7. Scale and offsets are
  what \<open>_calculate_bounds\<close> computes for these coordinates.
\<close>

definition mk_vertex :: "int \<Rightarrow> real \<Rightarrow> real \<Rightarrow> bool \<Rightarrow> int option \<Rightarrow> real vertex" where
  "mk_vertex i x y c occ =
     \<lparr>vertex_id = i, vertex_x = x, vertex_y = y, vertex_name = ''v'', is_charger = c,
      vertex_occupying_robot = occ\<rparr>"

definition mk_lane :: "int \<Rightarrow> int \<Rightarrow> int option \<Rightarrow> lane" where
  "mk_lane f t occ =
     \<lparr>from_vertex = f, to_vertex = t, speed_limit = 0, lane_occupying_robot = occ,
      is_blocked = False\<rparr>"

definition line_graph :: "real nav_graph" where
  "line_graph =
     \<lparr>vertices = [mk_vertex 0 0 0 False None, mk_vertex 1 1 0 False (Some 7),
                  mk_vertex 2 2 0 True None],
      lanes = [mk_lane 0 1 None, mk_lane 1 2 (Some 7), mk_lane 1 0 None, mk_lane 2 1 None],
      scale_factor = 150, offset_x = 100, offset_y = 150,
      min_x = 0, max_x = 2, min_y = 0, max_y = 0\<rparr>"

text \<open>The same store with the lane from 0 to 1 held by robot 3, on its way to vertex 1.\<close>

definition transit_graph :: "real nav_graph" where
  "transit_graph =
     line_graph\<lparr>lanes := [mk_lane 0 1 (Some 3), mk_lane 1 2 (Some 7), mk_lane 1 0 None,
                            mk_lane 2 1 None]\<rparr>"

text \<open>The same store with the lane from 0 to 1 held by robot 5.\<close>

definition jam_graph :: "real nav_graph" where
  "jam_graph =
     line_graph\<lparr>lanes := [mk_lane 0 1 (Some 5), mk_lane 1 2 (Some 7), mk_lane 1 0 None,
                            mk_lane 2 1 None]\<rparr>"

text \<open>A robot with the given id, vertex, state, path, index, position and target position.\<close>

definition mk_robot ::
  "int \<Rightarrow> int \<Rightarrow> robot_state \<Rightarrow> int list \<Rightarrow> nat \<Rightarrow> real \<times> real \<Rightarrow> real \<times> real \<Rightarrow> real robot" where
  "mk_robot rid v s p i pos tpos =
     \<lparr>robot_id = rid, current_vertex = v, color = (255, 0, 0), state = s, path = p,
      current_path_index = i, target_vertex = (if p = [] then None else Some (last p)),
      position = pos, target_position = tpos, move_speed = 2\<rparr>"

section \<open>Properties\<close>

lemmas ex_defs = line_graph_def mk_vertex_def mk_lane_def mk_robot_def

subsection \<open>A search that starts on its target\<close>

lemma bfs_found: "bfs g t ((t, p) # fs) seen = Some (rev (t # p))"
  by (subst bfs.simps) simp

subsection \<open>Reading the store\<close>

lemma list_index_in_store: "in_store g v \<Longrightarrow> list_index (vertices g) v = Some (nat v)"
  by (simp add: in_store_def list_index_def)

lemma vertices_release_lane: "vertices (release_lane g f t a) = vertices g"
  by (simp add: release_lane_def)

subsection \<open>Vertex reservation\<close>

text \<open>
  C4. For a vertex id in the store and any robot id, \<open>reserve_vertex\<close> returns \<open>True\<close>
  exactly when the vertex has no occupant; it then makes the robot the occupant of that
  vertex and changes nothing else. Otherwise it returns \<open>False\<close> and the whole store is
  as before.
\<close>

theorem reserve_vertex_spec:
  assumes "in_store g v"
  shows "\<exists>ok g'. reserve_vertex g v a = Inr (ok, g')
           \<and> (ok \<longleftrightarrow> vertex_occupying_robot (vertices g ! nat v) = None)
           \<and> (ok \<longrightarrow> g' = g\<lparr>vertices := (vertices g)[nat v :=
                                (vertices g ! nat v)\<lparr>vertex_occupying_robot := Some a\<rparr>]\<rparr>
                     \<and> vertex_occupying_robot (vertices g' ! nat v) = Some a)
           \<and> (\<not> ok \<longrightarrow> g' = g)"
  using assms by (auto simp: reserve_vertex_def list_index_in_store in_store_def)

theorem reserve_vertex_spec_witness:
  "in_store line_graph 0 \<and> in_store line_graph 1
   \<and> reserve_vertex line_graph 0 3 =
       Inr (True, line_graph\<lparr>vertices := [mk_vertex 0 0 0 False (Some 3),
                                            mk_vertex 1 1 0 False (Some 7),
                                            mk_vertex 2 2 0 True None]\<rparr>)
   \<and> reserve_vertex line_graph 1 3 = Inr (False, line_graph)"
proof -
  have h0: "in_store line_graph 0" and h1: "in_store line_graph 1"
    by (simp_all add: in_store_def ex_defs)
  show ?thesis
    using h0 h1 reserve_vertex_spec [OF h0, of 3] reserve_vertex_spec [OF h1, of 3]
    by (auto simp: ex_defs)
qed

text \<open>
  C10. Reserving a vertex again for the robot that already holds it fails and leaves
  the store as it is: the occupant is only compared with \<open>None\<close>, never with the caller.
\<close>

theorem reserve_vertex_not_idempotent:
  assumes "in_store g v" and "vertex_occupying_robot (vertices g ! nat v) = Some a"
  shows "reserve_vertex g v a = Inr (False, g)"
  using assms by (simp add: reserve_vertex_def list_index_in_store)

theorem reserve_vertex_not_idempotent_witness:
  "in_store line_graph 1 \<and> vertex_occupying_robot (vertices line_graph ! nat 1) = Some 7
   \<and> reserve_vertex line_graph 1 7 = Inr (False, line_graph)"
proof -
  have h1: "in_store line_graph 1"
    by (simp add: in_store_def ex_defs)
  have h2: "vertex_occupying_robot (vertices line_graph ! nat 1) = Some 7"
    by (simp add: ex_defs)
  show ?thesis
    using h1 h2 reserve_vertex_not_idempotent [OF h1 h2] by simp
qed

subsection \<open>Lane reservation\<close>

lemma reserve_lane_loop_ok:
  "fst (reserve_lane_loop ls f t a) \<longleftrightarrow>
     (\<exists>l. find (\<lambda>l. from_vertex l = f \<and> to_vertex l = t) ls = Some l
          \<and> lane_occupying_robot l = None \<and> \<not> is_blocked l)"
  by (induction ls) (auto split: prod.splits)

lemma reserve_lane_loop_fail:
  "\<not> fst (reserve_lane_loop ls f t a) \<Longrightarrow> snd (reserve_lane_loop ls f t a) = ls"
  by (induction ls) (auto split: prod.splits if_splits)

lemma reserve_lane_loop_first:
  "fst (reserve_lane_loop ls f t a) \<Longrightarrow>
     \<exists>i<length ls. from_vertex (ls ! i) = f \<and> to_vertex (ls ! i) = t
        \<and> (\<forall>j<i. \<not> (from_vertex (ls ! j) = f \<and> to_vertex (ls ! j) = t))
        \<and> snd (reserve_lane_loop ls f t a) = ls[i := (ls ! i)\<lparr>lane_occupying_robot := Some a\<rparr>]"
proof (induction ls)
  case Nil
  then show ?case by simp
next
  case (Cons l ls)
  show ?case
  proof (cases "from_vertex l = f \<and> to_vertex l = t")
    case True
    with Cons.prems have "snd (reserve_lane_loop (l # ls) f t a) = (l # ls)[0 := ((l # ls) ! 0)\<lparr>lane_occupying_robot := Some a\<rparr>]"
      by (simp split: if_splits)
    with True show ?thesis by (intro exI[of _ 0]) simp
  next
    case False
    with Cons.prems have "fst (reserve_lane_loop ls f t a)"
      by (simp split: prod.splits)
    from Cons.IH[OF this] obtain i where i: "i < length ls"
      "from_vertex (ls ! i) = f \<and> to_vertex (ls ! i) = t"
      "\<forall>j<i. \<not> (from_vertex (ls ! j) = f \<and> to_vertex (ls ! j) = t)"
      "snd (reserve_lane_loop ls f t a) = ls[i := (ls ! i)\<lparr>lane_occupying_robot := Some a\<rparr>]"
      by blast
    have "\<forall>j<Suc i. \<not> (from_vertex ((l # ls) ! j) = f \<and> to_vertex ((l # ls) ! j) = t)"
      using False i(3) by (simp add: less_Suc_eq_0_disj) auto
    moreover have "snd (reserve_lane_loop (l # ls) f t a)
        = (l # ls)[Suc i := ((l # ls) ! Suc i)\<lparr>lane_occupying_robot := Some a\<rparr>]"
      using False i(4) by (auto split: prod.splits)
    ultimately show ?thesis using i(1,2) by (intro exI[of _ "Suc i"]) simp
  qed
qed

text \<open>
  C3. \<open>reserve_lane\<close> returns \<open>True\<close> exactly when the lane from \<open>f\<close> to \<open>t\<close> exists, has
  no occupant and is not blocked; it then makes the robot the occupant of that lane (the
  first with these end points) and changes nothing else. Otherwise it returns \<open>False\<close>
  and the store is as before. The vertices play no part: with any other list of
  vertices the result and the lanes are the same.
\<close>

theorem reserve_lane_spec:
  "\<exists>ok g'. reserve_lane g f t a = (ok, g')
     \<and> (ok \<longleftrightarrow> (\<exists>l. lane_from_to g f t = Some l \<and> lane_occupying_robot l = None \<and> \<not> is_blocked l))
     \<and> (ok \<longrightarrow> (\<exists>i<length (lanes g). from_vertex (lanes g ! i) = f \<and> to_vertex (lanes g ! i) = t
                   \<and> (\<forall>j<i. \<not> (from_vertex (lanes g ! j) = f \<and> to_vertex (lanes g ! j) = t))
                   \<and> g' = g\<lparr>lanes := (lanes g)[i := (lanes g ! i)\<lparr>lane_occupying_robot := Some a\<rparr>]\<rparr>))
     \<and> (\<not> ok \<longrightarrow> g' = g)
     \<and> (\<forall>vs. reserve_lane (g\<lparr>vertices := vs\<rparr>) f t a = (ok, g'\<lparr>vertices := vs\<rparr>))"
proof -
  obtain ok ls' where r: "reserve_lane_loop (lanes g) f t a = (ok, ls')"
    by (cases "reserve_lane_loop (lanes g) f t a")
  have 1: "ok \<longleftrightarrow> (\<exists>l. lane_from_to g f t = Some l \<and> lane_occupying_robot l = None \<and> \<not> is_blocked l)"
    using reserve_lane_loop_ok[of "lanes g" f t a] r by (simp add: lane_from_to_def)
  have 2: "ok \<longrightarrow> (\<exists>i<length (lanes g). from_vertex (lanes g ! i) = f \<and> to_vertex (lanes g ! i) = t
                   \<and> (\<forall>j<i. \<not> (from_vertex (lanes g ! j) = f \<and> to_vertex (lanes g ! j) = t))
                   \<and> g\<lparr>lanes := ls'\<rparr> = g\<lparr>lanes := (lanes g)[i := (lanes g ! i)\<lparr>lane_occupying_robot := Some a\<rparr>]\<rparr>)"
    using reserve_lane_loop_first[of "lanes g" f t a] r by auto
  have 3: "\<not> ok \<longrightarrow> g\<lparr>lanes := ls'\<rparr> = g"
    using reserve_lane_loop_fail[of "lanes g" f t a] r by simp
  have 4: "\<forall>vs. reserve_lane (g\<lparr>vertices := vs\<rparr>) f t a = (ok, g\<lparr>lanes := ls'\<rparr>\<lparr>vertices := vs\<rparr>)"
    using r by (simp add: reserve_lane_def)
  have "reserve_lane g f t a = (ok, g\<lparr>lanes := ls'\<rparr>)"
    using r by (simp add: reserve_lane_def)
  with 1 2 3 4 show ?thesis by blast
qed

theorem reserve_lane_spec_witness:
  "reserve_lane line_graph 0 1 3 =
     (True, line_graph\<lparr>lanes := [mk_lane 0 1 (Some 3), mk_lane 1 2 (Some 7),
                                  mk_lane 1 0 None, mk_lane 2 1 None]\<rparr>)
   \<and> reserve_lane line_graph 1 2 3 = (False, line_graph)
   \<and> reserve_lane line_graph 0 2 3 = (False, line_graph)"
proof -
  have a: "lane_from_to line_graph 0 1 = Some (mk_lane 0 1 None)"
    and b: "lane_from_to line_graph 1 2 = Some (mk_lane 1 2 (Some 7))"
    and c: "lane_from_to line_graph 0 2 = None"
    by (simp_all add: lane_from_to_def ex_defs)
  have 1: "reserve_lane line_graph 1 2 3 = (False, line_graph)"
    using reserve_lane_spec [of line_graph 1 2 3] b by (auto simp: mk_lane_def)
  have 2: "reserve_lane line_graph 0 2 3 = (False, line_graph)"
    using reserve_lane_spec [of line_graph 0 2 3] c by auto
  from reserve_lane_spec [of line_graph 0 1 3] obtain ok g' where
    r: "reserve_lane line_graph 0 1 3 = (ok, g')"
    and iff: "ok \<longleftrightarrow> (\<exists>l. lane_from_to line_graph 0 1 = Some l \<and> lane_occupying_robot l = None \<and> \<not> is_blocked l)"
    and imp: "ok \<longrightarrow> (\<exists>i<length (lanes line_graph).
                from_vertex (lanes line_graph ! i) = 0 \<and> to_vertex (lanes line_graph ! i) = 1
              \<and> (\<forall>j<i. \<not> (from_vertex (lanes line_graph ! j) = 0 \<and> to_vertex (lanes line_graph ! j) = 1))
              \<and> g' = line_graph\<lparr>lanes := (lanes line_graph)[i :=
                         (lanes line_graph ! i)\<lparr>lane_occupying_robot := Some 3\<rparr>]\<rparr>)"
    by blast
  have ok: "ok"
    using iff a by (simp add: mk_lane_def)
  with imp obtain i where
    j: "\<forall>j<i. \<not> (from_vertex (lanes line_graph ! j) = 0 \<and> to_vertex (lanes line_graph ! j) = 1)"
    and g': "g' = line_graph\<lparr>lanes := (lanes line_graph)[i :=
                    (lanes line_graph ! i)\<lparr>lane_occupying_robot := Some 3\<rparr>]\<rparr>"
    by blast
  have "i = 0"
  proof (rule ccontr)
    assume "i \<noteq> 0"
    then have "0 < i" by simp
    with j have "\<not> (from_vertex (lanes line_graph ! 0) = 0 \<and> to_vertex (lanes line_graph ! 0) = 1)" by blast
    then show False by (simp add: ex_defs)
  qed
  with g' have "g' = line_graph\<lparr>lanes := [mk_lane 0 1 (Some 3), mk_lane 1 2 (Some 7),
                                  mk_lane 1 0 None, mk_lane 2 1 None]\<rparr>"
    by (simp add: ex_defs)
  with r ok 1 2 show ?thesis by simp
qed

subsection \<open>Releasing\<close>

text \<open>
  C7. \<open>release_vertex\<close> clears the occupant of a vertex in the store exactly when the
  occupant is the caller, and otherwise (free, or held by another robot) returns the
  store as it is. \<open>release_lane\<close> does the same lane by lane: a lane from \<open>f\<close> to \<open>t\<close> held
  by the caller is cleared, every other lane and every vertex is as before, and when no
  such lane is held by the caller the store is as before.
\<close>

theorem release_spec:
  "(in_store g v \<longrightarrow>
      (vertex_occupying_robot (vertices g ! nat v) = Some a \<longrightarrow>
         release_vertex g v a =
           Inr (g\<lparr>vertices := (vertices g)[nat v :=
                   (vertices g ! nat v)\<lparr>vertex_occupying_robot := None\<rparr>]\<rparr>))
    \<and> (vertex_occupying_robot (vertices g ! nat v) \<noteq> Some a \<longrightarrow> release_vertex g v a = Inr g))
       \<and> vertices (release_lane g f t a) = vertices g
       \<and> length (lanes (release_lane g f t a)) = length (lanes g)
       \<and> (\<forall>i<length (lanes g).
            lanes (release_lane g f t a) ! i =
              (if from_vertex (lanes g ! i) = f \<and> to_vertex (lanes g ! i) = t
                  \<and> lane_occupying_robot (lanes g ! i) = Some a
               then (lanes g ! i)\<lparr>lane_occupying_robot := None\<rparr> else lanes g ! i))
       \<and> ((\<forall>l\<in>set (lanes g). from_vertex l = f \<and> to_vertex l = t \<longrightarrow> lane_occupying_robot l \<noteq> Some a)
            \<longrightarrow> release_lane g f t a = g)"
proof -
  have v: "in_store g v \<longrightarrow> list_index (vertices g) v = Some (nat v)"
    by (simp add: list_index_in_store)
  have "(\<forall>l\<in>set (lanes g). from_vertex l = f \<and> to_vertex l = t \<longrightarrow> lane_occupying_robot l \<noteq> Some a)
          \<longrightarrow> map (\<lambda>l. if from_vertex l = f \<and> to_vertex l = t
                             then (if lane_occupying_robot l = Some a
                                   then l\<lparr>lane_occupying_robot := None\<rparr> else l)
                             else l) (lanes g) = lanes g"
    by (simp add: map_idI)
  then show ?thesis using v
    by (auto simp: release_vertex_def release_lane_def)
qed

theorem release_spec_witness:
  "in_store line_graph 1
   \<and> release_vertex line_graph 1 7 =
       Inr (line_graph\<lparr>vertices := [mk_vertex 0 0 0 False None, mk_vertex 1 1 0 False None,
                                     mk_vertex 2 2 0 True None]\<rparr>)
   \<and> release_vertex line_graph 1 3 = Inr line_graph
   \<and> release_lane line_graph 1 2 3 = line_graph
   \<and> lanes (release_lane line_graph 1 2 7) ! 1 = mk_lane 1 2 None"
proof -
  have h1: "in_store line_graph 1"
    by (simp add: in_store_def ex_defs)
  have f: "\<forall>l\<in>set (lanes line_graph). from_vertex l = 1 \<and> to_vertex l = 2 \<longrightarrow> lane_occupying_robot l \<noteq> Some 3"
    by (simp add: ex_defs)
  have a: "release_vertex line_graph 1 7 =
       Inr (line_graph\<lparr>vertices := [mk_vertex 0 0 0 False None, mk_vertex 1 1 0 False None,
                                     mk_vertex 2 2 0 True None]\<rparr>)"
    using release_spec [of line_graph 1 7 0 0] h1 by (simp add: ex_defs)
  have b: "release_vertex line_graph 1 3 = Inr line_graph"
    using release_spec [of line_graph 1 3 0 0] h1 by (simp add: ex_defs)
  have c: "release_lane line_graph 1 2 3 = line_graph"
    using release_spec [of line_graph 1 3 1 2] f by blast
  have d: "lanes (release_lane line_graph 1 2 7) ! 1 = mk_lane 1 2 None"
    using release_spec [of line_graph 1 7 1 2] by (simp add: ex_defs)
  from h1 a b c d show ?thesis by simp
qed

subsection \<open>A Moving robot\<close>

lemma exact_norm_horizontal: "np_norm exact_arith (a, 0) = \<bar>a\<bar>"
  by (simp add: exact_arith_def)

lemma next_hop_last:
  "has_next_hop r \<Longrightarrow>
     (int (current_path_index r + 1) = int (length (path r)) - 1) =
     (current_path_index r + 2 = length (path r))"
  by (auto simp: has_next_hop_def)

text \<open>
  C2. A Moving robot with a hop left, whose next path vertex indexes a vertex of the
  store (at position \<open>i\<close>), so that reserving it does not raise. The distance is the one
  the code computes: the norm of the difference of target position and position, in the
  arithmetic \<open>ops\<close>, whatever that is. When the code's test finds it less than the step
  \<open>move_speed\<close>, \<open>update\<close> puts the robot on the target position, advances
  \<open>current_path_index\<close> by one, releases the lane from the previous to the next path
  vertex, tries to reserve the next vertex (the store keeps the outcome, the robot is the
  same either way), makes the next vertex the current one, and sets the state to
  Completed when the new index is the last of the path and to Idle otherwise. When the
  test fails, the position becomes the position plus the direction divided by the
  distance and multiplied by the step, each operation the code's own; nothing else
  changes in the robot or the store, and the robot stays Moving.
\<close>

theorem update_moving_spec:
  assumes "state r = Moving" and "has_next_hop r"
    and "list_index (vertices g) (path r ! (current_path_index r + 1)) = Some i"
  shows
    "(let direction = (np_sub ops (fst (target_position r)) (fst (position r)),
                       np_sub ops (snd (target_position r)) (snd (position r)));
          distance = np_norm ops direction;
          prev_vertex = path r ! current_path_index r;
          next_vertex = path r ! (current_path_index r + 1);
          g1 = release_lane g prev_vertex next_vertex (robot_id r);
          arrived = r\<lparr>position := target_position r,
                      current_path_index := current_path_index r + 1,
                      current_vertex := next_vertex,
                      state := (if current_path_index r + 2 = length (path r)
                                then Completed else Idle)\<rparr>;
          moved = r\<lparr>position :=
                      (np_add ops (fst (position r))
                         (np_mul ops (np_div ops (fst direction) distance) (move_speed r)),
                       np_add ops (snd (position r))
                         (np_mul ops (np_div ops (snd direction) distance) (move_speed r)))\<rparr>
      in (np_less ops distance (move_speed r) \<longrightarrow>
            (\<exists>st. update ops dt r g =
               Inr (st, arrived,
                    if vertex_occupying_robot (vertices g ! i) = None
                    then g1\<lparr>vertices := (vertices g)[i :=
                             (vertices g ! i)\<lparr>vertex_occupying_robot := Some (robot_id r)\<rparr>]\<rparr>
                    else g1)))
       \<and> (\<not> np_less ops distance (move_speed r) \<longrightarrow>
            state moved = Moving \<and> (\<exists>st. update ops dt r g = Inr (st, moved, g))))"
proof -
  let ?nv = "path r ! (current_path_index r + 1)"
  let ?g1 = "release_lane g (path r ! current_path_index r) ?nv (robot_id r)"
  have idx: "list_index (vertices ?g1) ?nv = Some i"
    using assms(3) by (simp add: vertices_release_lane)
  have upd: "update ops dt r g =
      update_moving ops \<lparr>su_robot_id = robot_id r, su_state = Moving,
                         su_position = current_vertex r, su_event = None\<rparr> r g"
    using assms(1,2) by (simp add: update_def follow_path_def)
  show ?thesis
    unfolding upd Let_def
    using assms(1) idx next_hop_last [OF assms(2)]
    by (auto simp: update_moving_def Let_def reserve_vertex_def vertices_release_lane)
qed

theorem update_moving_spec_witness:
  "state (mk_robot 3 0 Moving [0, 1, 2] 0 (100, 150) (250, 150)) = Moving
   \<and> has_next_hop (mk_robot 3 0 Moving [0, 1, 2] 0 (100, 150) (250, 150))
   \<and> list_index (vertices transit_graph) 1 = Some 1
   \<and> list_index (vertices line_graph) 2 = Some 2
   \<and> (\<exists>st. update exact_arith 1 (mk_robot 3 0 Moving [0, 1, 2] 0 (100, 150) (250, 150))
              transit_graph =
        Inr (st, mk_robot 3 0 Moving [0, 1, 2] 0 (102, 150) (250, 150), transit_graph))
   \<and> (\<exists>st. update exact_arith 1 (mk_robot 3 0 Moving [0, 1, 2] 0 (249, 150) (250, 150))
              transit_graph =
        Inr (st, mk_robot 3 1 Idle [0, 1, 2] 1 (250, 150) (250, 150), line_graph))
   \<and> (\<exists>st. update exact_arith 1 (mk_robot 3 1 Moving [0, 1, 2] 1 (399, 150) (400, 150))
              line_graph =
        Inr (st, mk_robot 3 2 Completed [0, 1, 2] 2 (400, 150) (400, 150),
             line_graph\<lparr>vertices := [mk_vertex 0 0 0 False None, mk_vertex 1 1 0 False (Some 7),
                                      mk_vertex 2 2 0 True (Some 3)]\<rparr>))"
proof -
  let ?a = "mk_robot 3 0 Moving [0, 1, 2] 0 (100, 150) (250, 150)"
  let ?b = "mk_robot 3 0 Moving [0, 1, 2] 0 (249, 150) (250, 150)"
  let ?c = "mk_robot 3 1 Moving [0, 1, 2] 1 (399, 150) (400, 150)"
  have s: "state ?a = Moving" "state ?b = Moving" "state ?c = Moving"
    by (simp_all add: mk_robot_def)
  have n: "has_next_hop ?a" "has_next_hop ?b" "has_next_hop ?c"
    by (simp_all add: has_next_hop_def mk_robot_def)
  have v: "list_index (vertices transit_graph) 1 = Some 1"
    "list_index (vertices line_graph) 2 = Some 2"
    by (simp_all add: list_index_def transit_graph_def ex_defs)
  have va: "list_index (vertices transit_graph) (path ?a ! (current_path_index ?a + 1)) = Some 1"
    and vb: "list_index (vertices transit_graph) (path ?b ! (current_path_index ?b + 1)) = Some 1"
    and vc: "list_index (vertices line_graph) (path ?c ! (current_path_index ?c + 1)) = Some 2"
    using v by (simp_all add: mk_robot_def)
  have ar: "np_sub exact_arith = (\<lambda>a b. a - b)" "np_add exact_arith = (\<lambda>a b. a + b)"
    "np_mul exact_arith = (\<lambda>a b. a * b)" "np_div exact_arith = (\<lambda>a b. a / b)"
    "np_less exact_arith = (\<lambda>a b. a < b)"
    by (simp_all add: exact_arith_def)
  have a: "\<exists>st. update exact_arith 1 ?a transit_graph =
        Inr (st, mk_robot 3 0 Moving [0, 1, 2] 0 (102, 150) (250, 150), transit_graph)"
    using update_moving_spec [OF s(1) n(1) va, where ops = exact_arith and dt = 1]
    by (simp add: mk_robot_def ar exact_norm_horizontal)
  have b: "\<exists>st. update exact_arith 1 ?b transit_graph =
        Inr (st, mk_robot 3 1 Idle [0, 1, 2] 1 (250, 150) (250, 150), line_graph)"
    using update_moving_spec [OF s(2) n(2) vb, where ops = exact_arith and dt = 1]
    by (simp add: transit_graph_def ex_defs ar exact_norm_horizontal release_lane_def)
  have c: "\<exists>st. update exact_arith 1 ?c line_graph =
        Inr (st, mk_robot 3 2 Completed [0, 1, 2] 2 (400, 150) (400, 150),
             line_graph\<lparr>vertices := [mk_vertex 0 0 0 False None, mk_vertex 1 1 0 False (Some 7),
                                      mk_vertex 2 2 0 True (Some 3)]\<rparr>)"
    using update_moving_spec [OF s(3) n(3) vc, where ops = exact_arith and dt = 1]
    by (simp add: ex_defs ar exact_norm_horizontal release_lane_def eval_nat_numeral)
  from s(1) n(1) v a b c show ?thesis by blast
qed

subsection \<open>Deadlock resolution\<close>

lemma clear_lanes_eq:
  "clear_lanes ls cv nv n =
     (map (\<lambda>l. if from_vertex l = cv \<and> to_vertex l = nv then l\<lparr>lane_occupying_robot := None\<rparr> else l) ls,
      n + length (filter (\<lambda>l. from_vertex l = cv \<and> to_vertex l = nv \<and> lane_occupying_robot l \<noteq> None) ls))"
  by (induction ls arbitrary: n) auto

lemma lanes_ok_occupied_once:
  "lanes_ok ls \<Longrightarrow>
     length (filter (\<lambda>l. from_vertex l = cv \<and> to_vertex l = nv \<and> lane_occupying_robot l \<noteq> None) ls) \<le> 1"
proof (induction ls)
  case Nil
  then show ?case by simp
next
  case (Cons l ls)
  show ?case
  proof (cases "from_vertex l = cv \<and> to_vertex l = nv")
    case True
    with Cons.prems have "\<forall>m\<in>set ls. from_vertex m = cv \<and> to_vertex m = nv \<longrightarrow> lane_occupying_robot m = None"
      by (auto simp: list_all_iff same_ends_def)
    then have "filter (\<lambda>l. from_vertex l = cv \<and> to_vertex l = nv \<and> lane_occupying_robot l \<noteq> None) ls = []"
      by (auto simp: filter_empty_conv)
    then show ?thesis by simp
  next
    case False
    with Cons show ?thesis by auto
  qed
qed

lemma find_in_set: "find P xs = Some x \<Longrightarrow> x \<in> set xs"
  by (induction xs) (auto split: if_splits)

lemma first_waiting_None: "first_waiting rs = None \<longleftrightarrow> waiting_robots rs = []"
  by (induction rs) (auto simp: first_waiting_def waiting_robots_def)

lemma first_waiting_Some:
  "first_waiting rs = Some (a, r) \<Longrightarrow> \<exists>rest. waiting_robots rs = a # rest"
  by (induction rs) (auto simp: first_waiting_def waiting_robots_def split: if_splits)

lemma dict_get_None: "k \<notin> fst ` set d \<Longrightarrow> dict_get d k = None"
  by (induction d) auto

lemma first_waiting_dict_get:
  "distinct (map fst rs) \<Longrightarrow> first_waiting rs = Some (a, r) \<Longrightarrow> dict_get rs a = Some r"
proof (induction rs)
  case Nil
  then show ?case by (simp add: first_waiting_def)
next
  case (Cons kv rs)
  obtain k v where kv: "kv = (k, v)" by (cases kv)
  show ?case
  proof (cases "state v = Waiting")
    case True
    with Cons.prems kv show ?thesis by (simp add: first_waiting_def)
  next
    case False
    with Cons.prems kv have f: "first_waiting rs = Some (a, r)"
      by (simp add: first_waiting_def)
    then have "(a, r) \<in> set rs"
      by (simp add: first_waiting_def find_in_set)
    then have "a \<in> fst ` set rs" by force
    with Cons.prems(1) kv have "k \<noteq> a" by auto
    with Cons.IH f Cons.prems(1) kv show ?thesis by simp
  qed
qed

text \<open>
  C1. With no Waiting robot in the registry \<open>resolve_deadlocks\<close> returns 0 and the store
  is as before. Otherwise only the first Waiting robot in iteration order counts: every
  lane from its current vertex to its next path vertex is cleared, no other lane and no
  vertex changes, and the result is 1 when such a lane was occupied (in particular by
  another robot) and 0 when not. The registry is a dictionary (its keys are distinct),
  and the store is one in which an occupied lane is the first with its end points, as
  \<open>reserve_lane\<close> leaves it; the loop has no \<open>break\<close>, and this is what keeps the count
  at one.
\<close>

theorem resolve_deadlocks_spec:
  assumes "distinct (map fst (robots fm))" and "lanes_ok (lanes g)"
  shows "(first_waiting (robots fm) = None \<longrightarrow> resolve_deadlocks fm g = Inr (0, g))
       \<and> (\<forall>a r. first_waiting (robots fm) = Some (a, r) \<longrightarrow>
            (\<exists>n g'. resolve_deadlocks fm g = Inr (n, g')
               \<and> (n = 0 \<or> n = 1)
               \<and> (n = 1 \<longleftrightarrow> (\<exists>l\<in>set (lanes g). next_lane r l \<and> lane_occupying_robot l \<noteq> None))
               \<and> (\<forall>l b. lane_from_to g (current_vertex r) (path r ! (current_path_index r + 1)) = Some l
                      \<and> has_next_hop r \<and> lane_occupying_robot l = Some b \<and> b \<noteq> a \<longrightarrow> n = 1)
               \<and> g' = g\<lparr>lanes := map (\<lambda>l. if next_lane r l then l\<lparr>lane_occupying_robot := None\<rparr> else l)
                                    (lanes g)\<rparr>))"
proof (intro conjI allI impI)
  assume "first_waiting (robots fm) = None"
  then show "resolve_deadlocks fm g = Inr (0, g)"
    by (simp add: first_waiting_None resolve_deadlocks_def)
next
  fix a r
  assume fw: "first_waiting (robots fm) = Some (a, r)"
  then obtain rest where w: "waiting_robots (robots fm) = a # rest"
    using first_waiting_Some by blast
  have d: "dict_get (robots fm) a = Some r"
    using assms(1) fw by (rule first_waiting_dict_get)
  let ?cv = "current_vertex r" and ?nv = "path r ! (current_path_index r + 1)"
  let ?occ = "filter (\<lambda>l. from_vertex l = ?cv \<and> to_vertex l = ?nv \<and> lane_occupying_robot l \<noteq> None) (lanes g)"
  let ?n = "if has_next_hop r then length ?occ else 0"
  let ?g' = "g\<lparr>lanes := map (\<lambda>l. if next_lane r l then l\<lparr>lane_occupying_robot := None\<rparr> else l) (lanes g)\<rparr>"
  have nohop: "\<not> has_next_hop r \<Longrightarrow> ?g' = g"
    by (simp add: next_lane_def)
  have res: "resolve_deadlocks fm g = Inr (?n, ?g')"
  proof (cases "has_next_hop r")
    case True
    then show ?thesis
      using w d by (simp add: resolve_deadlocks_def clear_lanes_eq next_lane_def Let_def)
  next
    case False
    then show ?thesis
      using w d nohop by (simp add: resolve_deadlocks_def)
  qed
  have le: "length ?occ \<le> 1"
    using assms(2) by (rule lanes_ok_occupied_once)
  have n01: "?n = 0 \<or> ?n = 1"
    using le by (auto simp: le_Suc_eq)
  have n1: "?n = 1 \<longleftrightarrow> (\<exists>l\<in>set (lanes g). next_lane r l \<and> lane_occupying_robot l \<noteq> None)"
  proof -
    have "(?occ \<noteq> []) = (\<exists>l\<in>set (lanes g). from_vertex l = ?cv \<and> to_vertex l = ?nv \<and> lane_occupying_robot l \<noteq> None)"
      by (auto simp: filter_empty_conv)
    moreover have "(length ?occ = 1) = (?occ \<noteq> [])"
      using le by (cases ?occ) auto
    ultimately show ?thesis
      by (auto simp: next_lane_def)
  qed
  have diff: "\<forall>l b. lane_from_to g ?cv ?nv = Some l \<and> has_next_hop r
                \<and> lane_occupying_robot l = Some b \<and> b \<noteq> a \<longrightarrow> ?n = 1"
  proof (intro allI impI)
    fix l b
    assume h: "lane_from_to g ?cv ?nv = Some l \<and> has_next_hop r
                \<and> lane_occupying_robot l = Some b \<and> b \<noteq> a"
    then have "l \<in> set (lanes g) \<and> from_vertex l = ?cv \<and> to_vertex l = ?nv"
      by (auto simp: lane_from_to_def find_Some_iff)
    with h have "\<exists>l\<in>set (lanes g). next_lane r l \<and> lane_occupying_robot l \<noteq> None"
      by (auto simp: next_lane_def)
    with n1 show "?n = 1" by simp
  qed
  show "\<exists>n g'. resolve_deadlocks fm g = Inr (n, g')
               \<and> (n = 0 \<or> n = 1)
               \<and> (n = 1 \<longleftrightarrow> (\<exists>l\<in>set (lanes g). next_lane r l \<and> lane_occupying_robot l \<noteq> None))
               \<and> (\<forall>l b. lane_from_to g (current_vertex r) (path r ! (current_path_index r + 1)) = Some l
                      \<and> has_next_hop r \<and> lane_occupying_robot l = Some b \<and> b \<noteq> a \<longrightarrow> n = 1)
               \<and> g' = g\<lparr>lanes := map (\<lambda>l. if next_lane r l then l\<lparr>lane_occupying_robot := None\<rparr> else l)
                                    (lanes g)\<rparr>"
    using res n01 n1 diff by blast
qed

theorem resolve_deadlocks_spec_witness:
  "distinct (map fst [(1::int, mk_robot 1 2 Idle [] 0 (400, 150) (400, 150)),
                      (2, mk_robot 2 0 Waiting [0, 1, 2] 0 (100, 150) (100, 150)),
                      (3, mk_robot 3 1 Waiting [1, 2] 0 (250, 150) (250, 150))])
   \<and> lanes_ok (lanes jam_graph)
   \<and> first_waiting [(1, mk_robot 1 2 Idle [] 0 (400, 150) (400, 150)),
                     (2, mk_robot 2 0 Waiting [0, 1, 2] 0 (100, 150) (100, 150)),
                     (3, mk_robot 3 1 Waiting [1, 2] 0 (250, 150) (250, 150))]
       = Some (2, mk_robot 2 0 Waiting [0, 1, 2] 0 (100, 150) (100, 150))
   \<and> resolve_deadlocks
        \<lparr>robots = [(1, mk_robot 1 2 Idle [] 0 (400, 150) (400, 150)),
                   (2, mk_robot 2 0 Waiting [0, 1, 2] 0 (100, 150) (100, 150)),
                   (3, mk_robot 3 1 Waiting [1, 2] 0 (250, 150) (250, 150))],
         next_robot_id = 4, selected_robot = None\<rparr> jam_graph
       = Inr (1, jam_graph\<lparr>lanes := [mk_lane 0 1 None, mk_lane 1 2 (Some 7), mk_lane 1 0 None,
                                      mk_lane 2 1 None]\<rparr>)
   \<and> first_waiting [(1, mk_robot 1 2 Idle [] 0 (400, 150) (400, 150))] = None
   \<and> resolve_deadlocks
        \<lparr>robots = [(1, mk_robot 1 2 Idle [] 0 (400, 150) (400, 150))],
         next_robot_id = 4, selected_robot = None\<rparr> jam_graph
       = Inr (0, jam_graph)"
proof -
  let ?r1 = "mk_robot 1 2 Idle [] 0 (400, 150) (400, 150)"
  let ?r2 = "mk_robot 2 0 Waiting [0, 1, 2] 0 (100, 150) (100, 150)"
  let ?r3 = "mk_robot 3 1 Waiting [1, 2] 0 (250, 150) (250, 150)"
  let ?rs = "[(1::int, ?r1), (2, ?r2), (3, ?r3)]"
  let ?fm = "\<lparr>robots = ?rs, next_robot_id = 4, selected_robot = None\<rparr>"
  let ?fm1 = "\<lparr>robots = [(1::int, ?r1)], next_robot_id = 4, selected_robot = None\<rparr>"
  have d: "distinct (map fst (robots ?fm))" and d1: "distinct (map fst (robots ?fm1))"
    by simp_all
  have ok: "lanes_ok (lanes jam_graph)"
    by (simp add: jam_graph_def ex_defs same_ends_def)
  have fw: "first_waiting (robots ?fm) = Some (2, ?r2)"
    by (simp add: first_waiting_def mk_robot_def)
  have fw1: "first_waiting (robots ?fm1) = None"
    by (simp add: first_waiting_def mk_robot_def)
  have occ: "\<exists>l\<in>set (lanes jam_graph). next_lane ?r2 l \<and> lane_occupying_robot l \<noteq> None"
    by (simp add: jam_graph_def ex_defs next_lane_def has_next_hop_def)
  have m: "map (\<lambda>l. if next_lane ?r2 l then l\<lparr>lane_occupying_robot := None\<rparr> else l) (lanes jam_graph)
           = [mk_lane 0 1 None, mk_lane 1 2 (Some 7), mk_lane 1 0 None, mk_lane 2 1 None]"
    by (simp add: jam_graph_def ex_defs next_lane_def has_next_hop_def)
  have a: "resolve_deadlocks ?fm jam_graph
       = Inr (1, jam_graph\<lparr>lanes := [mk_lane 0 1 None, mk_lane 1 2 (Some 7), mk_lane 1 0 None,
                                      mk_lane 2 1 None]\<rparr>)"
    using resolve_deadlocks_spec [OF d ok] fw occ m by auto
  have b: "resolve_deadlocks ?fm1 jam_graph = Inr (0, jam_graph)"
    using resolve_deadlocks_spec [OF d1 ok] fw1 by blast
  from d ok fw a fw1 b show ?thesis by simp
qed

subsection \<open>The store stays well-formed\<close>

text \<open>
  \<open>lanes_ok\<close> holds when every lane is free, as after loading, and each operation that
  writes a lane's occupant keeps it.
\<close>

lemma lanes_ok_free: "\<forall>l\<in>set ls. lane_occupying_robot l = None \<Longrightarrow> lanes_ok ls"
  by (induction ls) (auto simp: list_all_iff)

lemma lanes_ok_clear:
  "lanes_ok ls \<Longrightarrow> lanes_ok (map (\<lambda>l. if P l then l\<lparr>lane_occupying_robot := None\<rparr> else l) ls)"
  by (induction ls) (auto simp: list_all_iff same_ends_def)

lemma lanes_ok_release_lane: "lanes_ok (lanes g) \<Longrightarrow> lanes_ok (lanes (release_lane g f t a))"
proof -
  have "lanes (release_lane g f t a) =
      map (\<lambda>l. if from_vertex l = f \<and> to_vertex l = t \<and> lane_occupying_robot l = Some a
                then l\<lparr>lane_occupying_robot := None\<rparr> else l) (lanes g)"
    by (simp add: release_lane_def)
  then show "lanes_ok (lanes g) \<Longrightarrow> lanes_ok (lanes (release_lane g f t a))"
    by (simp add: lanes_ok_clear)
qed

lemma lanes_ok_resolve_deadlocks:
  "lanes_ok (lanes g) \<Longrightarrow> resolve_deadlocks fm g = Inr (n, g') \<Longrightarrow> lanes_ok (lanes g')"
  by (auto simp: resolve_deadlocks_def clear_lanes_eq Let_def lanes_ok_clear
           split: list.splits option.splits if_splits)

lemma reserve_lane_loop_set:
  "m \<in> set (snd (reserve_lane_loop ls f t a)) \<Longrightarrow>
     m \<in> set ls \<or> (from_vertex m = f \<and> to_vertex m = t)"
  by (induction ls) (auto split: if_splits prod.splits)

lemma lanes_ok_reserve_lane_loop:
  "lanes_ok ls \<Longrightarrow> lanes_ok (snd (reserve_lane_loop ls f t a))"
proof (induction ls)
  case Nil
  then show ?case by simp
next
  case (Cons l ls)
  show ?case
  proof (cases "from_vertex l = f \<and> to_vertex l = t")
    case True
    with Cons.prems show ?thesis
      by (auto simp: list_all_iff same_ends_def)
  next
    case False
    have "list_all (\<lambda>m. same_ends l m \<longrightarrow> lane_occupying_robot m = None)
            (snd (reserve_lane_loop ls f t a))"
      unfolding list_all_iff
    proof (intro ballI impI)
      fix m
      assume m: "m \<in> set (snd (reserve_lane_loop ls f t a))" and se: "same_ends l m"
      from reserve_lane_loop_set[OF m] False se have "m \<in> set ls"
        by (auto simp: same_ends_def)
      with Cons.prems se show "lane_occupying_robot m = None"
        by (auto simp: list_all_iff)
    qed
    moreover have "lanes_ok (snd (reserve_lane_loop ls f t a))"
      using Cons by simp
    ultimately show ?thesis
      using False by (auto split: prod.splits)
  qed
qed

lemma lanes_ok_reserve_lane:
  "lanes_ok (lanes g) \<Longrightarrow> lanes_ok (lanes (snd (reserve_lane g f t a)))"
  using lanes_ok_reserve_lane_loop [of "lanes g" f t a]
  by (auto simp: reserve_lane_def split: prod.splits)

subsection \<open>A task to the vertex the robot is on\<close>

lemma in_store_node: "in_store g v \<Longrightarrow> v \<in> set (graph_nodes g)"
proof -
  assume "in_store g v"
  then have "nat v < length (vertices g)" and "v = int (nat v)"
    by (auto simp: in_store_def)
  then have "v \<in> int ` {0..<length (vertices g)}"
    by (metis atLeastLessThan_iff imageI zero_le)
  then show ?thesis by (simp add: graph_nodes_def)
qed

lemma shortest_path_self: "in_store g v \<Longrightarrow> get_shortest_path g v v = Inr (Some [v])"
  by (simp add: get_shortest_path_def nx_shortest_path_def in_store_node bfs_found)

text \<open>
  C5, as the code has it. For a robot that is Idle or Completed and whose current vertex
  is in the store, \<open>assign_task\<close> with that vertex as destination succeeds, sets \<open>path\<close> to
  the one-element list of that vertex and the index to 0, and forces the state to Idle.
  The next \<open>update\<close> finds no hop left: it changes nothing in the store and leaves the
  robot Idle, or makes it Charging when the vertex is a charger. The state is not
  Completed after it; Completed is only ever set on arrival from a Moving hop.
\<close>

theorem assign_task_same_vertex:
  assumes "state r = Idle \<or> state r = Completed" and "in_store g (current_vertex r)"
  shows "(let r' = r\<lparr>path := [current_vertex r], current_path_index := 0,
                     target_vertex := Some (current_vertex r), state := Idle\<rparr>
         in assign_task r g (current_vertex r) = Inr (True, r')
          \<and> (\<exists>st. update ops dt r' g =
                Inr (st,
                     r'\<lparr>state := (if is_charger (vertices g ! nat (current_vertex r))
                                  then Charging else Idle)\<rparr>,
                     g)))"
proof -
  let ?r' = "r\<lparr>path := [current_vertex r], current_path_index := 0,
               target_vertex := Some (current_vertex r), state := Idle\<rparr>"
  have a: "assign_task r g (current_vertex r) = Inr (True, ?r')"
    using assms by (auto simp: assign_task_def shortest_path_self)
  have "\<not> has_next_hop ?r'"
    by (simp add: has_next_hop_def)
  then have u: "\<exists>st. update ops dt ?r' g =
      Inr (st, ?r'\<lparr>state := (if is_charger (vertices g ! nat (current_vertex r))
                               then Charging else Idle)\<rparr>, g)"
    using assms(2) by (simp add: update_def follow_path_def list_index_in_store)
  from a u show ?thesis by (simp add: Let_def)
qed

theorem assign_task_same_vertex_witness:
  "(state (mk_robot 7 1 Completed [0, 1] 1 (250, 150) (250, 150)) = Idle
      \<or> state (mk_robot 7 1 Completed [0, 1] 1 (250, 150) (250, 150)) = Completed)
   \<and> in_store line_graph (current_vertex (mk_robot 7 1 Completed [0, 1] 1 (250, 150) (250, 150)))
   \<and> assign_task (mk_robot 7 1 Completed [0, 1] 1 (250, 150) (250, 150)) line_graph 1
       = Inr (True, mk_robot 7 1 Idle [1] 0 (250, 150) (250, 150))
   \<and> (\<exists>st. update exact_arith 1 (mk_robot 7 1 Idle [1] 0 (250, 150) (250, 150)) line_graph
       = Inr (st, mk_robot 7 1 Idle [1] 0 (250, 150) (250, 150), line_graph))"
proof -
  let ?r = "mk_robot 7 1 Completed [0, 1] 1 (250, 150) (250, 150)"
  have s: "state ?r = Idle \<or> state ?r = Completed"
    by (simp add: mk_robot_def)
  have v: "in_store line_graph (current_vertex ?r)"
    by (simp add: in_store_def ex_defs)
  show ?thesis
    using s v assign_task_same_vertex [OF s v, where ops = exact_arith and dt = 1]
    by (simp add: ex_defs Let_def)
qed

text \<open>
  C5 as stated fails: robot 7, Completed on vertex 1 of the line graph, is given vertex 1
  as destination; the path is \<open>[1]\<close>, and after the next \<open>update\<close> the robot is Idle.
\<close>

theorem assign_task_same_vertex_counterexample:
  "assign_task (mk_robot 7 1 Completed [0, 1] 1 (250, 150) (250, 150)) line_graph 1
       = Inr (True, mk_robot 7 1 Idle [1] 0 (250, 150) (250, 150))
   \<and> update exact_arith 1 (mk_robot 7 1 Idle [1] 0 (250, 150) (250, 150)) line_graph
       = Inr (\<lparr>su_robot_id = 7, su_state = Idle, su_position = 1, su_event = None\<rparr>,
              mk_robot 7 1 Idle [1] 0 (250, 150) (250, 150), line_graph)
   \<and> state (mk_robot 7 1 Idle [1] 0 (250, 150) (250, 150)) \<noteq> Completed"
  by (simp add: assign_task_def get_shortest_path_def nx_shortest_path_def graph_nodes_def
        bfs_found update_def follow_path_def has_next_hop_def list_index_def ex_defs)

subsection \<open>Spawning\<close>




subsection \<open>The time step\<close>

text \<open>
  C8. \<open>update\<close> gives the same status, the same robot and the same store (or the same
  exception) for any two values of \<open>delta_time\<close>.
\<close>

theorem update_ignores_delta_time: "update ops d1 r g = update ops d2 r g"
  by (simp add: update_def)

subsection \<open>Charging with nothing left to do\<close>

lemma no_next_hop_iff:
  "(path r = [] \<or> int (length (path r)) - 1 \<le> int (current_path_index r)) \<longleftrightarrow> \<not> has_next_hop r"
  by (auto simp: has_next_hop_def)

text \<open>
  C9. A Charging robot whose path is empty or whose index is at least the length of the
  path minus one: \<open>update\<close> returns the robot and the store as they are, \<open>assign_task\<close>
  returns \<open>False\<close> and the robot as it is, and so does every sequence of such calls: the
  robot stays Charging.
\<close>

theorem charging_robot_stays:
  assumes "state r = Charging"
    and "path r = [] \<or> int (length (path r)) - 1 \<le> int (current_path_index r)"
  shows "update ops dt r g =
           Inr (\<lparr>su_robot_id = robot_id r, su_state = Charging,
                 su_position = current_vertex r, su_event = None\<rparr>, r, g)
       \<and> assign_task r g d = Inr (False, r)
       \<and> (\<forall>cs. apply_calls ops cs r g = Inr (r, g))"
proof -
  have nh: "\<not> has_next_hop r"
    using assms(2) by (simp add: no_next_hop_iff)
  have u: "\<And>dt. update ops dt r g =
           Inr (\<lparr>su_robot_id = robot_id r, su_state = Charging,
                 su_position = current_vertex r, su_event = None\<rparr>, r, g)"
    using assms(1) nh by (simp add: update_def follow_path_def)
  have a: "\<And>d. assign_task r g d = Inr (False, r)"
    using assms(1) by (simp add: assign_task_def)
  have c: "apply_calls ops cs r g = Inr (r, g)" for cs
  proof (induction cs)
    case Nil
    then show ?case by simp
  next
    case (Cons c cs)
    then show ?case by (cases c) (simp_all add: u a)
  qed
  from u a c show ?thesis by blast
qed

theorem charging_robot_stays_witness:
  "state (mk_robot 7 2 Charging [0, 1, 2] 2 (400, 150) (400, 150)) = Charging
   \<and> (path (mk_robot 7 2 Charging [0, 1, 2] 2 (400, 150) (400, 150)) = []
      \<or> int (length (path (mk_robot 7 2 Charging [0, 1, 2] 2 (400, 150) (400, 150)))) - 1
          \<le> int (current_path_index (mk_robot 7 2 Charging [0, 1, 2] 2 (400, 150) (400, 150))))
   \<and> update exact_arith 1 (mk_robot 7 2 Charging [0, 1, 2] 2 (400, 150) (400, 150)) line_graph =
       Inr (\<lparr>su_robot_id = 7, su_state = Charging, su_position = 2, su_event = None\<rparr>,
            mk_robot 7 2 Charging [0, 1, 2] 2 (400, 150) (400, 150), line_graph)
   \<and> assign_task (mk_robot 7 2 Charging [0, 1, 2] 2 (400, 150) (400, 150)) line_graph 0 =
       Inr (False, mk_robot 7 2 Charging [0, 1, 2] 2 (400, 150) (400, 150))
   \<and> apply_calls exact_arith [Update 1, Assign_task 0, Update 2]
        (mk_robot 7 2 Charging [0, 1, 2] 2 (400, 150) (400, 150)) line_graph =
       Inr (mk_robot 7 2 Charging [0, 1, 2] 2 (400, 150) (400, 150), line_graph)"
proof -
  let ?r = "mk_robot 7 2 Charging [0, 1, 2] 2 (400, 150) (400, 150)"
  have s: "state ?r = Charging"
    by (simp add: mk_robot_def)
  have p: "path ?r = [] \<or> int (length (path ?r)) - 1 \<le> int (current_path_index ?r)"
    by (simp add: mk_robot_def)
  have i: "robot_id ?r = 7" "current_vertex ?r = 2"
    by (simp_all add: mk_robot_def)
  show ?thesis
    using s p i
      charging_robot_stays [OF s p, where ops = exact_arith and dt = 1 and g = line_graph and d = 0]
      charging_robot_stays [OF s p, where ops = exact_arith and dt = 2 and g = line_graph and d = 0]
    by simp
qed

subsection \<open>What the methods of a robot maintain\<close>

text \<open>
  \<open>robot_ok\<close> holds of a robot fresh from the constructor and is kept by \<open>assign_task\<close>
  and \<open>update\<close>: a robot that is Moving or Waiting always has a hop left. A robot that has
  started moving aims at a vertex of the store. The registry keeps distinct keys under
  \<open>dict_set\<close>.
\<close>

lemma robot_init_ok: "robot_init ops rid v g c = Inr (r, g') \<Longrightarrow> robot_ok r"
  by (auto simp: robot_init_def robot_ok_def split: sum.splits)

lemma assign_task_ok: "robot_ok r \<Longrightarrow> assign_task r g d = Inr (b, r') \<Longrightarrow> robot_ok r'"
  by (auto simp: assign_task_def robot_ok_def split: if_splits sum.splits option.splits)

lemma start_moving_ok:
  "has_next_hop r \<Longrightarrow> start_moving ops st r g nv = Inr (st', r', g') \<Longrightarrow> robot_ok r'"
  by (auto simp: start_moving_def robot_ok_def has_next_hop_def split: sum.splits)

lemma start_moving_target_in_store:
  "start_moving ops st r g nv = Inr (st', r', g') \<Longrightarrow> list_index (vertices g') nv \<noteq> None"
  by (auto simp: start_moving_def get_scaled_position_def split: sum.splits option.splits)

lemma update_idle_charging_ok:
  "has_next_hop r \<Longrightarrow> update_idle_charging ops st r g = Inr (st', r', g') \<Longrightarrow> robot_ok r'"
  by (auto simp: update_idle_charging_def Let_def split: prod.splits if_splits
           dest: start_moving_ok)
    (auto simp: robot_ok_def has_next_hop_def)

lemma update_waiting_ok:
  "robot_ok r \<Longrightarrow> has_next_hop r \<Longrightarrow> update_waiting ops st r g = Inr (st', r', g') \<Longrightarrow> robot_ok r'"
  by (auto simp: update_waiting_def Let_def split: prod.splits if_splits
           dest: start_moving_ok)

lemma update_moving_ok:
  "robot_ok r \<Longrightarrow> state r = Moving \<Longrightarrow> update_moving ops st r g = Inr (st', r', g') \<Longrightarrow> robot_ok r'"
  by (auto simp: update_moving_def Let_def robot_ok_def has_next_hop_def
           split: prod.splits if_splits sum.splits)

lemma follow_path_ok:
  assumes ok: "robot_ok r" and f: "follow_path ops st r g = Inr (st', r', g')"
  shows "robot_ok r'"
proof (cases "has_next_hop r")
  case False
  with f have "r' = r" by (simp add: follow_path_def)
  with ok show ?thesis by simp
next
  case True
  show ?thesis
  proof (cases "state r")
    case Idle
    with f True have "update_idle_charging ops st r g = Inr (st', r', g')"
      by (simp add: follow_path_def)
    with True show ?thesis by (rule update_idle_charging_ok)
  next
    case Moving
    with f True have "update_moving ops st r g = Inr (st', r', g')"
      by (simp add: follow_path_def)
    with ok Moving show ?thesis by (rule update_moving_ok)
  next
    case Waiting
    with f True have "update_waiting ops st r g = Inr (st', r', g')"
      by (simp add: follow_path_def)
    with ok True show ?thesis by (rule update_waiting_ok)
  next
    case Charging
    with f True have "update_idle_charging ops st r g = Inr (st', r', g')"
      by (simp add: follow_path_def)
    with True show ?thesis by (rule update_idle_charging_ok)
  next
    case Completed
    with f True have "r' = r" by (simp add: follow_path_def)
    with ok show ?thesis by simp
  qed
qed

lemma update_ok: "robot_ok r \<Longrightarrow> update ops dt r g = Inr (st, r', g') \<Longrightarrow> robot_ok r'"
  by (auto simp: update_def Let_def split: if_splits option.splits dest: follow_path_ok)
    (auto simp: robot_ok_def)

lemma dict_set_keys:
  "map fst (dict_set d k v) = (if k \<in> set (map fst d) then map fst d else map fst d @ [k])"
  by (induction d) force+

lemma dict_set_distinct: "distinct (map fst d) \<Longrightarrow> distinct (map fst (dict_set d k v))"
  by (simp add: dict_set_keys del: set_map)

end
